theory Spec2Isabelle
  imports Main "HOL-Library.FSet" "HOL-Library.Product_Lexorder"
begin

section \<open>Data model of \<^verbatim>\<open>minesweeper.py\<close>\<close>

text \<open>
  A cell is a Python tuple \<^verbatim>\<open>(i, j)\<close> of unbounded integers. A Python \<^verbatim>\<open>set\<close> of cells is
  always finite, so it is a finite set (\<open>fset\<close>); \<^verbatim>\<open>len\<close> is \<open>fcard\<close>. A \<^verbatim>\<open>Sentence\<close>
  object has the two attributes \<^verbatim>\<open>cells\<close> and \<^verbatim>\<open>count\<close>; the latter is a Python integer and
  may become negative.
\<close>

type_synonym cell = "int \<times> int"

record sentence =
  cells :: "cell fset"
  count :: int

text \<open>\<^verbatim>\<open>Sentence.__init__\<close>: \<^verbatim>\<open>self.cells = set(cells)\<close> stores a fresh set with the same members.\<close>

definition Sentence :: "cell fset \<Rightarrow> int \<Rightarrow> sentence" where
  "Sentence cs n = \<lparr>cells = cs, count = n\<rparr>"

text \<open>\<^verbatim>\<open>Sentence.__eq__\<close>; Python derives \<^verbatim>\<open>!=\<close> from it by negation.\<close>

definition sentence_eq :: "sentence \<Rightarrow> sentence \<Rightarrow> bool" where
  "sentence_eq self other \<longleftrightarrow> cells self = cells other \<and> count self = count other"

text \<open>
  The agent object. Every \<^verbatim>\<open>Sentence\<close> in \<^verbatim>\<open>knowledge\<close> is a distinct object owning its own
  set (the constructor copies), and an object enters the list only when it is freshly built,
  so mutation through one list entry never shows through another: a list of sentence values
  carries all the aliasing there is.
\<close>

record agent =
  height :: int
  width :: int
  moves_made :: "cell fset"
  mines :: "cell fset"
  safes :: "cell fset"
  knowledge :: "sentence list"

text \<open>\<^verbatim>\<open>MinesweeperAI.__init__\<close>\<close>

definition MinesweeperAI :: "int \<Rightarrow> int \<Rightarrow> agent" where
  "MinesweeperAI h w =
     \<lparr>height = h, width = w, moves_made = {||}, mines = {||}, safes = {||}, knowledge = []\<rparr>"

text \<open>
  Python leaves the order in which a \<^verbatim>\<open>for\<close> loop visits a set unspecified; CPython follows
  the hash table, which is in general not the ascending order. The model visits a set in
  ascending (lexicographic) order, as a stand-in for whichever order the interpreter takes.
  \<open>iterates xs S\<close> says that \<open>xs\<close> is one of the orders in which \<open>S\<close> can be visited; the
  results below that depend on a loop over a set are shown for every such order, and no
  statement says which cell of a set a loop meets first.
\<close>

definition set_iter :: "cell fset \<Rightarrow> cell list" where
  "set_iter S = sorted_list_of_fset S"

definition iterates :: "cell list \<Rightarrow> cell fset \<Rightarrow> bool" where
  "iterates xs S \<longleftrightarrow> distinct xs \<and> fset_of_list xs = S"

section \<open>Class \<^verbatim>\<open>Sentence\<close>\<close>

text \<open>
  The two queries return the result together with the object, so that the absence of a
  side effect is a statement about the model. \<^verbatim>\<open>self.cells.copy()\<close> is a fresh set with the
  members of \<^verbatim>\<open>cells\<close>.
\<close>

definition known_mines :: "sentence \<Rightarrow> cell fset \<times> sentence" where
  "known_mines self =
     (if int (fcard (cells self)) = count self then (cells self, self) else ({||}, self))"

definition known_safes :: "sentence \<Rightarrow> cell fset \<times> sentence" where
  "known_safes self =
     (if count self = 0 then (cells self, self) else ({||}, self))"

text \<open>\<^verbatim>\<open>Sentence.mark_mine\<close> and \<^verbatim>\<open>Sentence.mark_safe\<close> mutate the object; the model returns it.\<close>

definition Sentence_mark_mine :: "sentence \<Rightarrow> cell \<Rightarrow> sentence" where
  "Sentence_mark_mine self cell =
     (if cell |\<in>| cells self
      then self\<lparr>cells := cells self |-| {|cell|}, count := count self - 1\<rparr>
      else self)"

definition Sentence_mark_safe :: "sentence \<Rightarrow> cell \<Rightarrow> sentence" where
  "Sentence_mark_safe self cell =
     (if cell |\<in>| cells self
      then self\<lparr>cells := cells self |-| {|cell|}\<rparr>
      else self)"

section \<open>Class \<^verbatim>\<open>MinesweeperAI\<close>\<close>

definition mark_mine :: "agent \<Rightarrow> cell \<Rightarrow> agent" where
  "mark_mine self cell =
     self\<lparr>mines := finsert cell (mines self),
          knowledge := map (\<lambda>sentence. Sentence_mark_mine sentence cell) (knowledge self)\<rparr>"

definition mark_safe :: "agent \<Rightarrow> cell \<Rightarrow> agent" where
  "mark_safe self cell =
     self\<lparr>safes := finsert cell (safes self),
          knowledge := map (\<lambda>sentence. Sentence_mark_safe sentence cell) (knowledge self)\<rparr>"

text \<open>
  \<^verbatim>\<open>apply_inference\<close>, first loop. The body for the list entry at index \<open>i\<close>: both sets are
  computed from the entry as it is when the loop reaches it, then every cell of the first is
  marked as a mine and every cell of the second as safe. Marking mutates all entries in place
  but never changes the length of the list, so the loop visits the indices
  \<open>0 ..< len(knowledge)\<close>, reading each entry in the current state.
\<close>

definition infer_sentence :: "nat \<Rightarrow> agent \<Rightarrow> agent" where
  "infer_sentence i self =
     (let sentence = knowledge self ! i;
          mines' = fst (known_mines sentence);
          safes' = fst (known_safes sentence);
          self1 = fold (\<lambda>mine a. mark_mine a mine) (set_iter mines') self;
          self2 = fold (\<lambda>safe a. mark_safe a safe) (set_iter safes') self1
      in self2)"

definition infer_loop :: "agent \<Rightarrow> agent" where
  "infer_loop self = fold infer_sentence [0 ..< length (knowledge self)] self"

text \<open>
  The nested loop over ordered pairs. It reads \<^verbatim>\<open>self.knowledge\<close> (the pruned list) and appends
  to the separate list \<^verbatim>\<open>new_knowledge\<close>; the membership test \<^verbatim>\<open>not in self.knowledge\<close> compares
  with \<^verbatim>\<open>__eq__\<close> against the entries of the pruned list only.
\<close>

definition subset_inference :: "sentence list \<Rightarrow> sentence list" where
  "subset_inference ks =
     [Sentence (cells s2 |-| cells s1) (count s2 - count s1).
        s1 \<leftarrow> ks, s2 \<leftarrow> ks,
        \<not> sentence_eq s1 s2 \<and> cells s1 |\<subseteq>| cells s2,
        \<not> list_ex (sentence_eq (Sentence (cells s2 |-| cells s1) (count s2 - count s1))) ks]"

definition apply_inference :: "agent \<Rightarrow> agent" where
  "apply_inference self =
     (let self1 = infer_loop self;
          ks = filter (\<lambda>s. fcard (cells s) > 0) (knowledge self1);
          new_knowledge = subset_inference ks
      in self1\<lparr>knowledge := ks @ new_knowledge\<rparr>)"

text \<open>
  \<^verbatim>\<open>add_knowledge\<close>. The neighbourhood loop runs over \<^verbatim>\<open>range(cell[0] - 1, cell[0] + 2)\<close> and
  \<^verbatim>\<open>range(cell[1] - 1, cell[1] + 2)\<close> and reads \<^verbatim>\<open>safes\<close> and \<^verbatim>\<open>mines\<close> after the cell itself
  has been marked safe. There is no \<^verbatim>\<open>raise\<close> in the method.
\<close>

definition neighbors_of :: "agent \<Rightarrow> cell \<Rightarrow> cell fset" where
  "neighbors_of self cell =
     fset_of_list
       [(i, j).
          i \<leftarrow> [fst cell - 1 .. fst cell + 1], j \<leftarrow> [snd cell - 1 .. snd cell + 1],
          (i, j) \<noteq> cell \<and> 0 \<le> i \<and> i < height self \<and> 0 \<le> j \<and> j < width self,
          (i, j) |\<notin>| safes self \<and> (i, j) |\<notin>| mines self]"

definition add_knowledge :: "agent \<Rightarrow> cell \<Rightarrow> int \<Rightarrow> agent" where
  "add_knowledge self cell n =
     (let self1 = self\<lparr>moves_made := finsert cell (moves_made self)\<rparr>;
          self2 = mark_safe self1 cell;
          neighbors = neighbors_of self2 cell;
          new_sentence = Sentence neighbors n;
          self3 = self2\<lparr>knowledge := knowledge self2 @ [new_sentence]\<rparr>
      in apply_inference self3)"

text \<open>
  \<^verbatim>\<open>make_safe_move\<close>: the loop over \<^verbatim>\<open>self.safes\<close> returns the first cell it meets that is not
  in \<^verbatim>\<open>moves_made\<close>, and \<^verbatim>\<open>None\<close> when the loop ends. The query returns the agent as well.
  Which of several unvisited safe cells comes first depends on the interpreter's visiting
  order, so the cell that the model returns need not be the one a run of the source returns;
  \<open>safe_move_loop\<close> takes the order as its argument.
\<close>

fun safe_move_loop :: "cell list \<Rightarrow> cell fset \<Rightarrow> cell option" where
  "safe_move_loop [] made = None"
| "safe_move_loop (cell # rest) made =
     (if cell |\<notin>| made then Some cell else safe_move_loop rest made)"

definition make_safe_move :: "agent \<Rightarrow> cell option \<times> agent" where
  "make_safe_move self = (safe_move_loop (set_iter (safes self)) (moves_made self), self)"

text \<open>
  \<^verbatim>\<open>make_random_move\<close>: \<^verbatim>\<open>random.choice\<close> picks the entry at a random index below the length
  of the list; the draw \<open>r\<close> is an argument of the model.
\<close>

definition available_moves :: "agent \<Rightarrow> cell list" where
  "available_moves self =
     [(i, j). i \<leftarrow> [0 .. height self - 1], j \<leftarrow> [0 .. width self - 1],
              (i, j) |\<notin>| moves_made self \<and> (i, j) |\<notin>| mines self]"

definition make_random_move :: "nat \<Rightarrow> agent \<Rightarrow> cell option \<times> agent" where
  "make_random_move r self =
     (let moves = available_moves self
      in (if moves \<noteq> [] then Some (moves ! (r mod length moves)) else None, self))"

section \<open>Calls, runs and invariants\<close>

text \<open>
  A call of \<^verbatim>\<open>add_knowledge\<close> as its caller sees it: \<open>Inl\<close> would be an exception leaving the
  method. The body has no \<^verbatim>\<open>raise\<close>, and on a pair of integers none of its steps (set
  insertion, membership tests, \<^verbatim>\<open>range\<close>, comparisons) can raise, so the call always returns.
\<close>

datatype error = ValueError

definition observe :: "agent \<Rightarrow> cell \<Rightarrow> int \<Rightarrow> error + agent" where
  "observe self cell n = Inr (add_knowledge self cell n)"

definition in_bounds :: "agent \<Rightarrow> cell \<Rightarrow> bool" where
  "in_bounds self cell \<longleftrightarrow>
     0 \<le> fst cell \<and> fst cell < height self \<and> 0 \<le> snd cell \<and> snd cell < width self"

text \<open>A sequence of \<^verbatim>\<open>add_knowledge\<close> calls, each given as the pair of its arguments.\<close>

fun observe_all :: "agent \<Rightarrow> (cell \<times> int) list \<Rightarrow> agent" where
  "observe_all self [] = self"
| "observe_all self ((cell, n) # rest) = observe_all (add_knowledge self cell n) rest"


text \<open>The public operations of the agent that change it, and runs of them.\<close>

datatype operation =
  Add_knowledge cell int
| Mark_mine cell
| Mark_safe cell
| Apply_inference

fun perform :: "agent \<Rightarrow> operation \<Rightarrow> agent" where
  "perform self (Add_knowledge cell n) = add_knowledge self cell n"
| "perform self (Mark_mine cell) = mark_mine self cell"
| "perform self (Mark_safe cell) = mark_safe self cell"
| "perform self Apply_inference = apply_inference self"

definition run :: "agent \<Rightarrow> operation list \<Rightarrow> agent" where
  "run self ops = fold (\<lambda>operation a. perform a operation) ops self"

text \<open>No sentence of the knowledge base mentions a cell of \<^verbatim>\<open>safes\<close> or \<^verbatim>\<open>mines\<close>.\<close>

definition propagated :: "agent \<Rightarrow> bool" where
  "propagated self \<longleftrightarrow>
     (\<forall>s \<in> set (knowledge self). cells s |\<inter>| (safes self |\<union>| mines self) = {||})"

text \<open>The eight cells around \<^verbatim>\<open>(2, 2)\<close>.\<close>

definition around_2_2 :: "cell fset" where
  "around_2_2 = {|(1, 1), (1, 2), (1, 3), (2, 1), (2, 3), (3, 1), (3, 2), (3, 3)|}"


section \<open>Properties of \<^verbatim>\<open>Sentence\<close>\<close>

lemma sentence_eq_iff: "sentence_eq s t \<longleftrightarrow> s = t"
  by (auto simp: sentence_eq_def)

lemma cells_Sentence_mark_mine [simp]:
  "cells (Sentence_mark_mine s c) = cells s |-| {|c|}"
  by (auto simp: Sentence_mark_mine_def)

lemma count_Sentence_mark_mine:
  "count (Sentence_mark_mine s c) = (if c |\<in>| cells s then count s - 1 else count s)"
  by (simp add: Sentence_mark_mine_def)

lemma cells_Sentence_mark_safe [simp]:
  "cells (Sentence_mark_safe s c) = cells s |-| {|c|}"
  by (auto simp: Sentence_mark_safe_def)

lemma count_Sentence_mark_safe [simp]:
  "count (Sentence_mark_safe s c) = count s"
  by (simp add: Sentence_mark_safe_def)

text \<open>
  Claim C7. \<^verbatim>\<open>known_mines()\<close> returns the cells of the sentence when \<^verbatim>\<open>len(cells) == count\<close>
  and the empty set otherwise, and the sentence object is the same afterwards.
\<close>

theorem known_mines_spec:
  "(int (fcard (cells s)) = count s \<longrightarrow> fst (known_mines s) = cells s) \<and>
   (int (fcard (cells s)) \<noteq> count s \<longrightarrow> fst (known_mines s) = {||}) \<and>
   snd (known_mines s) = s"
  by (simp add: known_mines_def)

theorem known_mines_spec_witness:
  "int (fcard (cells (Sentence {|(3, 1), (4, 1), (5, 1)|} 3))) =
     count (Sentence {|(3, 1), (4, 1), (5, 1)|} 3) \<and>
   fst (known_mines (Sentence {|(3, 1), (4, 1), (5, 1)|} 3)) = {|(3, 1), (4, 1), (5, 1)|} \<and>
   int (fcard (cells (Sentence {|(0, 1), (1, 1), (2, 1)|} 1))) \<noteq>
     count (Sentence {|(0, 1), (1, 1), (2, 1)|} 1) \<and>
   fst (known_mines (Sentence {|(0, 1), (1, 1), (2, 1)|} 1)) = {||} \<and>
   snd (known_mines (Sentence {|(0, 1), (1, 1), (2, 1)|} 1)) =
     Sentence {|(0, 1), (1, 1), (2, 1)|} 1"
  using known_mines_spec [of "Sentence {|(3, 1), (4, 1), (5, 1)|} 3"]
        known_mines_spec [of "Sentence {|(0, 1), (1, 1), (2, 1)|} 1"]
  by (simp add: Sentence_def fcard_finsert_if fcard_fempty)

text \<open>
  Claim C8. \<^verbatim>\<open>Sentence.mark_mine(cell)\<close> on a member of \<^verbatim>\<open>cells\<close> removes it, which makes
  \<^verbatim>\<open>len(cells)\<close> smaller by one, and lowers \<^verbatim>\<open>count\<close> by one; on any other cell the sentence
  stays as it is.
\<close>

theorem Sentence_mark_mine_spec:
  "(c |\<in>| cells s \<longrightarrow>
      cells (Sentence_mark_mine s c) = cells s |-| {|c|} \<and>
      fcard (cells s) = fcard (cells (Sentence_mark_mine s c)) + 1 \<and>
      count (Sentence_mark_mine s c) = count s - 1) \<and>
   (c |\<notin>| cells s \<longrightarrow> Sentence_mark_mine s c = s)"
  by (auto simp: Sentence_mark_mine_def dest: fcard_Suc_fminus1)

theorem Sentence_mark_mine_spec_witness:
  "(1, 1) |\<in>| cells (Sentence {|(0, 1), (1, 1), (2, 1)|} 1) \<and>
   cells (Sentence_mark_mine (Sentence {|(0, 1), (1, 1), (2, 1)|} 1) (1, 1)) =
     {|(0, 1), (2, 1)|} \<and>
   count (Sentence_mark_mine (Sentence {|(0, 1), (1, 1), (2, 1)|} 1) (1, 1)) = 0 \<and>
   (0, 0) |\<notin>| cells (Sentence {|(0, 1), (1, 1), (2, 1)|} 1) \<and>
   Sentence_mark_mine (Sentence {|(0, 1), (1, 1), (2, 1)|} 1) (0, 0) =
     Sentence {|(0, 1), (1, 1), (2, 1)|} 1"
  using Sentence_mark_mine_spec [of "(1, 1)" "Sentence {|(0, 1), (1, 1), (2, 1)|} 1"]
        Sentence_mark_mine_spec [of "(0, 0)" "Sentence {|(0, 1), (1, 1), (2, 1)|} 1"]
  by (auto simp: Sentence_def)

section \<open>Iterating over a set\<close>

lemma fset_of_list_set_iter [simp]: "fset_of_list (set_iter S) = S"
  by (simp add: set_iter_def)

lemma set_set_iter [simp]: "set (set_iter S) = fset S"
  by (simp add: set_iter_def)

lemma set_iter_iterates: "iterates (set_iter S) S"
proof -
  have "distinct (sorted_list_of_fset S)"
    by (simp add: sorted_list_of_fset.rep_eq)
  then show ?thesis
    by (simp add: iterates_def set_iter_def)
qed

lemma set_iter_empty [simp]: "set_iter {||} = []"
  by (simp add: set_iter_def sorted_list_of_fset.rep_eq)

lemma set_iter_single [simp]: "set_iter {|c|} = [c]"
  by (simp add: set_iter_def sorted_list_of_fset.rep_eq)

section \<open>The marking loops\<close>

lemma mark_mine_fields [simp]:
  "height (mark_mine a c) = height a"
  "width (mark_mine a c) = width a"
  "moves_made (mark_mine a c) = moves_made a"
  "safes (mark_mine a c) = safes a"
  "mines (mark_mine a c) = finsert c (mines a)"
  "knowledge (mark_mine a c) = map (\<lambda>s. Sentence_mark_mine s c) (knowledge a)"
  by (simp_all add: mark_mine_def)

lemma mark_safe_fields [simp]:
  "height (mark_safe a c) = height a"
  "width (mark_safe a c) = width a"
  "moves_made (mark_safe a c) = moves_made a"
  "mines (mark_safe a c) = mines a"
  "safes (mark_safe a c) = finsert c (safes a)"
  "knowledge (mark_safe a c) = map (\<lambda>s. Sentence_mark_safe s c) (knowledge a)"
  by (simp_all add: mark_safe_def)

lemma fold_mark_mine_fields [simp]:
  "height (fold (\<lambda>m a. mark_mine a m) xs a) = height a"
  "width (fold (\<lambda>m a. mark_mine a m) xs a) = width a"
  "moves_made (fold (\<lambda>m a. mark_mine a m) xs a) = moves_made a"
  "safes (fold (\<lambda>m a. mark_mine a m) xs a) = safes a"
  "mines (fold (\<lambda>m a. mark_mine a m) xs a) = mines a |\<union>| fset_of_list xs"
  by (induction xs arbitrary: a; auto)+

lemma fold_mark_safe_fields [simp]:
  "height (fold (\<lambda>m a. mark_safe a m) xs a) = height a"
  "width (fold (\<lambda>m a. mark_safe a m) xs a) = width a"
  "moves_made (fold (\<lambda>m a. mark_safe a m) xs a) = moves_made a"
  "mines (fold (\<lambda>m a. mark_safe a m) xs a) = mines a"
  "safes (fold (\<lambda>m a. mark_safe a m) xs a) = safes a |\<union>| fset_of_list xs"
  by (induction xs arbitrary: a; auto)+

lemma knowledge_fold_mark_mine:
  "knowledge (fold (\<lambda>m a. mark_mine a m) xs a) =
     map (fold (\<lambda>m s. Sentence_mark_mine s m) xs) (knowledge a)"
  by (induction xs arbitrary: a) (simp_all add: comp_def)

lemma knowledge_fold_mark_safe:
  "knowledge (fold (\<lambda>m a. mark_safe a m) xs a) =
     map (fold (\<lambda>m s. Sentence_mark_safe s m) xs) (knowledge a)"
  by (induction xs arbitrary: a) (simp_all add: comp_def)

lemma cells_fold_Sentence_mark_mine [simp]:
  "cells (fold (\<lambda>m s. Sentence_mark_mine s m) xs s) = cells s |-| fset_of_list xs"
  by (induction xs arbitrary: s) auto

lemma cells_fold_Sentence_mark_safe [simp]:
  "cells (fold (\<lambda>m s. Sentence_mark_safe s m) xs s) = cells s |-| fset_of_list xs"
  by (induction xs arbitrary: s) auto

lemma count_fold_Sentence_mark_safe [simp]:
  "count (fold (\<lambda>m s. Sentence_mark_safe s m) xs s) = count s"
  by (induction xs arbitrary: s) auto

lemma count_fold_Sentence_mark_mine:
  "count (fold (\<lambda>m s. Sentence_mark_mine s m) xs s) =
     count s - int (fcard (cells s |\<inter>| fset_of_list xs))"
proof (induction xs arbitrary: s)
  case Nil
  show ?case by simp
next
  case (Cons x xs)
  show ?case
  proof (cases "x |\<in>| cells s")
    case True
    have "cells s |\<inter>| finsert x (fset_of_list xs) =
          finsert x ((cells s |-| {|x|}) |\<inter>| fset_of_list xs)"
      using True by auto
    moreover have "x |\<notin>| (cells s |-| {|x|}) |\<inter>| fset_of_list xs"
      by simp
    ultimately have "fcard (cells s |\<inter>| finsert x (fset_of_list xs)) =
          Suc (fcard ((cells s |-| {|x|}) |\<inter>| fset_of_list xs))"
      by (simp add: fcard_finsert_disjoint)
    then show ?thesis
      using True by (simp add: Cons.IH count_Sentence_mark_mine)
  next
    case False
    have "cells s |\<inter>| finsert x (fset_of_list xs) = (cells s |-| {|x|}) |\<inter>| fset_of_list xs"
      using False by auto
    then show ?thesis
      using False by (simp add: Cons.IH count_Sentence_mark_mine)
  qed
qed

text \<open>The state after the body of the first loop, in closed form.\<close>

lemma infer_sentence_fields [simp]:
  "height (infer_sentence i a) = height a"
  "width (infer_sentence i a) = width a"
  "moves_made (infer_sentence i a) = moves_made a"
  "mines (infer_sentence i a) = mines a |\<union>| fst (known_mines (knowledge a ! i))"
  "safes (infer_sentence i a) = safes a |\<union>| fst (known_safes (knowledge a ! i))"
  "length (knowledge (infer_sentence i a)) = length (knowledge a)"
  by (simp_all add: infer_sentence_def Let_def knowledge_fold_mark_mine knowledge_fold_mark_safe)

lemma knowledge_infer_sentence:
  "knowledge (infer_sentence i a) =
     map (\<lambda>s. \<lparr>cells = cells s |-| fst (known_mines (knowledge a ! i))
                              |-| fst (known_safes (knowledge a ! i)),
               count = count s - int (fcard (cells s |\<inter>| fst (known_mines (knowledge a ! i))))\<rparr>)
         (knowledge a)"
  by (simp add: infer_sentence_def Let_def knowledge_fold_mark_mine knowledge_fold_mark_safe
      count_fold_Sentence_mark_mine)

text \<open>
  The marking loops do not depend on the order in which the two sets are visited: any order
  gives the state that the model computes.
\<close>

lemma fold_Sentence_mark_mine_closed:
  "fold (\<lambda>m s. Sentence_mark_mine s m) xs s =
     s\<lparr>cells := cells s |-| fset_of_list xs,
       count := count s - int (fcard (cells s |\<inter>| fset_of_list xs))\<rparr>"
  by (rule sentence.equality) (simp_all add: count_fold_Sentence_mark_mine)

lemma fold_Sentence_mark_safe_closed:
  "fold (\<lambda>m s. Sentence_mark_safe s m) xs s = s\<lparr>cells := cells s |-| fset_of_list xs\<rparr>"
  by (rule sentence.equality) simp_all

lemma fold_mark_mine_closed:
  "fold (\<lambda>m a. mark_mine a m) xs a =
     a\<lparr>mines := mines a |\<union>| fset_of_list xs,
       knowledge := map (\<lambda>s. s\<lparr>cells := cells s |-| fset_of_list xs,
                                count := count s - int (fcard (cells s |\<inter>| fset_of_list xs))\<rparr>)
                        (knowledge a)\<rparr>"
  by (rule agent.equality)
     (simp_all add: knowledge_fold_mark_mine fold_Sentence_mark_mine_closed)

lemma fold_mark_safe_closed:
  "fold (\<lambda>m a. mark_safe a m) xs a =
     a\<lparr>safes := safes a |\<union>| fset_of_list xs,
       knowledge := map (\<lambda>s. s\<lparr>cells := cells s |-| fset_of_list xs\<rparr>) (knowledge a)\<rparr>"
  by (rule agent.equality)
     (simp_all add: knowledge_fold_mark_safe fold_Sentence_mark_safe_closed)

lemma infer_sentence_any_order:
  assumes "iterates ms (fst (known_mines (knowledge a ! i)))"
    and "iterates ss (fst (known_safes (knowledge a ! i)))"
  shows "fold (\<lambda>safe a. mark_safe a safe) ss (fold (\<lambda>mine a. mark_mine a mine) ms a) =
         infer_sentence i a"
proof -
  have "fset_of_list ms = fset_of_list (set_iter (fst (known_mines (knowledge a ! i))))"
    and "fset_of_list ss = fset_of_list (set_iter (fst (known_safes (knowledge a ! i))))"
    using assms by (simp_all add: iterates_def)
  then show ?thesis
    unfolding infer_sentence_def Let_def fold_mark_mine_closed fold_mark_safe_closed by simp
qed

section \<open>Eager propagation\<close>




lemma propagated_mark_mine: "propagated a \<Longrightarrow> propagated (mark_mine a c)"
  by (auto simp: propagated_def)

lemma propagated_mark_safe: "propagated a \<Longrightarrow> propagated (mark_safe a c)"
  by (auto simp: propagated_def)

lemma propagated_infer_sentence: "propagated a \<Longrightarrow> propagated (infer_sentence i a)"
  unfolding propagated_def by (auto simp: knowledge_infer_sentence)

lemma propagated_fold_infer_sentence:
  "propagated a \<Longrightarrow> propagated (fold infer_sentence is a)"
  by (induction "is" arbitrary: a) (simp_all add: propagated_infer_sentence)

lemma length_fold_infer_sentence [simp]:
  "length (knowledge (fold infer_sentence is a)) = length (knowledge a)"
  by (induction "is" arbitrary: a) simp_all

lemma fold_infer_sentence_fields [simp]:
  "height (fold infer_sentence is a) = height a"
  "width (fold infer_sentence is a) = width a"
  "moves_made (fold infer_sentence is a) = moves_made a"
  by (induction "is" arbitrary: a; simp)+

lemma fold_infer_sentence_mono:
  "mines a |\<subseteq>| mines (fold infer_sentence is a)"
  "safes a |\<subseteq>| safes (fold infer_sentence is a)"
  by (induction "is" arbitrary: a; fastforce)+

lemma cells_subset_inference:
  "s \<in> set (subset_inference ks) \<Longrightarrow> \<exists>s2 \<in> set ks. cells s |\<subseteq>| cells s2"
  by (auto simp: subset_inference_def Sentence_def)

lemma apply_inference_fields [simp]:
  "height (apply_inference a) = height a"
  "width (apply_inference a) = width a"
  "moves_made (apply_inference a) = moves_made a"
  "mines (apply_inference a) = mines (infer_loop a)"
  "safes (apply_inference a) = safes (infer_loop a)"
  by (simp_all add: apply_inference_def Let_def infer_loop_def)

lemma knowledge_apply_inference:
  "knowledge (apply_inference a) =
     filter (\<lambda>s. fcard (cells s) > 0) (knowledge (infer_loop a)) @
     subset_inference (filter (\<lambda>s. fcard (cells s) > 0) (knowledge (infer_loop a)))"
  by (simp add: apply_inference_def Let_def)

lemma propagated_infer_loop: "propagated a \<Longrightarrow> propagated (infer_loop a)"
  by (simp add: infer_loop_def propagated_fold_infer_sentence)

lemma propagated_apply_inference:
  assumes "propagated a"
  shows "propagated (apply_inference a)"
proof -
  have p: "propagated (infer_loop a)"
    using assms by (rule propagated_infer_loop)
  show ?thesis
    unfolding propagated_def
  proof
    fix s assume "s \<in> set (knowledge (apply_inference a))"
    then obtain s2 where "s2 \<in> set (knowledge (infer_loop a))" "cells s |\<subseteq>| cells s2"
      by (auto simp: knowledge_apply_inference dest!: cells_subset_inference)
    with p show "cells s |\<inter>| (safes (apply_inference a) |\<union>| mines (apply_inference a)) = {||}"
      by (auto simp: propagated_def)
  qed
qed

lemma neighbors_of_iff:
  "(i, j) |\<in>| neighbors_of a c \<longleftrightarrow>
     fst c - 1 \<le> i \<and> i \<le> fst c + 1 \<and> snd c - 1 \<le> j \<and> j \<le> snd c + 1 \<and> (i, j) \<noteq> c \<and>
     0 \<le> i \<and> i < height a \<and> 0 \<le> j \<and> j < width a \<and>
     (i, j) |\<notin>| safes a \<and> (i, j) |\<notin>| mines a"
  by (auto simp: neighbors_of_def fset_of_list_elem)

lemma neighbors_of_unknown:
  "neighbors_of a c |\<inter>| (safes a |\<union>| mines a) = {||}"
  by (auto simp: neighbors_of_def fset_of_list_elem)

lemma propagated_add_knowledge:
  assumes "propagated a"
  shows "propagated (add_knowledge a c n)"
proof -
  let ?a2 = "mark_safe (a\<lparr>moves_made := finsert c (moves_made a)\<rparr>) c"
  have "propagated (a\<lparr>moves_made := finsert c (moves_made a)\<rparr>)"
    using assms by (simp add: propagated_def)
  then have "propagated ?a2"
    by (rule propagated_mark_safe)
  then have "propagated (?a2\<lparr>knowledge := knowledge ?a2 @ [Sentence (neighbors_of ?a2 c) n]\<rparr>)"
    using neighbors_of_unknown [of ?a2 c] by (auto simp: propagated_def Sentence_def)
  then show ?thesis
    unfolding add_knowledge_def Let_def by (rule propagated_apply_inference)
qed

lemma propagated_init: "propagated (MinesweeperAI h w)"
  by (simp add: propagated_def MinesweeperAI_def)

lemma propagated_perform: "propagated a \<Longrightarrow> propagated (perform a operation)"
  by (cases operation)
     (simp_all add: propagated_add_knowledge propagated_mark_mine propagated_mark_safe
        propagated_apply_inference)

text \<open>
  Claim C4. In every state that a run of public operations (\<^verbatim>\<open>add_knowledge\<close>, \<^verbatim>\<open>mark_mine\<close>,
  \<^verbatim>\<open>mark_safe\<close>, \<^verbatim>\<open>apply_inference\<close>) reaches from a new agent, a cell of \<^verbatim>\<open>safes\<close> or
  \<^verbatim>\<open>mines\<close> occurs in the cells of no sentence of \<^verbatim>\<open>knowledge\<close>.
\<close>

theorem eager_propagation:
  assumes "s \<in> set (knowledge (run (MinesweeperAI h w) ops))"
    and "c |\<in>| safes (run (MinesweeperAI h w) ops) |\<union>| mines (run (MinesweeperAI h w) ops)"
  shows "c |\<notin>| cells s"
proof -
  have "propagated a \<Longrightarrow> propagated (fold (\<lambda>operation a. perform a operation) ops a)" for a
    by (induction ops arbitrary: a) (simp_all add: propagated_perform)
  then have "propagated (run (MinesweeperAI h w) ops)"
    by (simp add: run_def propagated_init)
  then show ?thesis
    using assms unfolding propagated_def by blast
qed

theorem eager_propagation_witness:
  "Sentence {|(1, 0), (1, 1)|} 1 \<in>
     set (knowledge (run (MinesweeperAI 5 5) [Add_knowledge (0, 0) 1, Add_knowledge (0, 1) 3])) \<and>
   (0, 0) |\<in>| safes (run (MinesweeperAI 5 5) [Add_knowledge (0, 0) 1, Add_knowledge (0, 1) 3]) |\<union>|
              mines (run (MinesweeperAI 5 5) [Add_knowledge (0, 0) 1, Add_knowledge (0, 1) 3]) \<and>
   (0, 0) |\<notin>| cells (Sentence {|(1, 0), (1, 1)|} 1)"
proof -
  have h1: "Sentence {|(1, 0), (1, 1)|} 1 \<in>
     set (knowledge (run (MinesweeperAI 5 5) [Add_knowledge (0, 0) 1, Add_knowledge (0, 1) 3]))"
    by code_simp
  have h2: "(0, 0) |\<in>|
     safes (run (MinesweeperAI 5 5) [Add_knowledge (0, 0) 1, Add_knowledge (0, 1) 3]) |\<union>|
     mines (run (MinesweeperAI 5 5) [Add_knowledge (0, 0) 1, Add_knowledge (0, 1) 3])"
    by code_simp
  show ?thesis
    using h1 h2 eager_propagation [OF h1 h2] by simp
qed

section \<open>Disjointness of \<^verbatim>\<open>safes\<close> and \<^verbatim>\<open>mines\<close>\<close>








section \<open>Observing a zero count\<close>





lemma int_between_1_3: "1 \<le> (i::int) \<Longrightarrow> i \<le> 3 \<Longrightarrow> i = 1 \<or> i = 2 \<or> i = 3"
  by arith

lemma around_2_2_iff:
  "(i, j) |\<in>| around_2_2 \<longleftrightarrow> 1 \<le> i \<and> i \<le> 3 \<and> 1 \<le> j \<and> j \<le> 3 \<and> (i, j) \<noteq> (2, 2)"
proof
  assume "(i, j) |\<in>| around_2_2"
  then show "1 \<le> i \<and> i \<le> 3 \<and> 1 \<le> j \<and> j \<le> 3 \<and> (i, j) \<noteq> (2, 2)"
    by (auto simp: around_2_2_def)
next
  assume r: "1 \<le> i \<and> i \<le> 3 \<and> 1 \<le> j \<and> j \<le> 3 \<and> (i, j) \<noteq> (2, 2)"
  then have "i = 1 \<or> i = 2 \<or> i = 3" and "j = 1 \<or> j = 2 \<or> j = 3"
    by (simp_all add: int_between_1_3)
  with r show "(i, j) |\<in>| around_2_2"
    unfolding around_2_2_def by fastforce
qed

text \<open>With an empty knowledge base the new sentence is the only one, and all eight are marked.\<close>

lemma zero_count_no_knowledge:
  assumes "5 \<le> height a" and "5 \<le> width a"
    and "around_2_2 |\<inter>| (safes a |\<union>| mines a) = {||}"
    and "knowledge a = []"
  shows "around_2_2 |\<subseteq>| safes (add_knowledge a (2, 2) 0)"
proof -
  let ?a2 = "mark_safe (a\<lparr>moves_made := finsert (2, 2) (moves_made a)\<rparr>) (2, 2)"
  let ?a3 = "?a2\<lparr>knowledge := knowledge ?a2 @ [Sentence (neighbors_of ?a2 (2, 2)) 0]\<rparr>"
  have "around_2_2 |\<subseteq>| neighbors_of ?a2 (2, 2)"
    using assms(1-3) by (auto simp: neighbors_of_iff around_2_2_iff)
  moreover have "infer_loop ?a3 = infer_sentence 0 ?a3"
    using assms(4) by (simp add: infer_loop_def)
  then have "safes (apply_inference ?a3) = safes ?a3 |\<union>| fst (known_safes (knowledge ?a3 ! 0))"
    by simp
  moreover have "fst (known_safes (knowledge ?a3 ! 0)) = neighbors_of ?a2 (2, 2)"
    using assms(4) by (simp add: known_safes_def Sentence_def)
  ultimately show ?thesis
    unfolding add_knowledge_def Let_def by auto
qed




section \<open>Subset inference in \<^verbatim>\<open>apply_inference\<close>\<close>

text \<open>A sentence that the pair loop appends is equal to no entry of the list it reads.\<close>

lemma subset_inference_fresh:
  "s \<in> set (subset_inference ks) \<Longrightarrow> s \<notin> set ks"
  by (auto simp: subset_inference_def list_ex_iff sentence_eq_iff)

text \<open>The first loop leaves the agent as it is at a sentence with no known mines or safes.\<close>

lemma infer_sentence_idle:
  assumes "int (fcard (cells (knowledge a ! i))) \<noteq> count (knowledge a ! i)"
    and "count (knowledge a ! i) \<noteq> 0"
  shows "infer_sentence i a = a"
  using assms by (simp add: infer_sentence_def known_mines_def known_safes_def)

lemma fold_infer_sentence_idle:
  assumes "\<forall>i \<in> set is. int (fcard (cells (knowledge a ! i))) \<noteq> count (knowledge a ! i) \<and>
                        count (knowledge a ! i) \<noteq> 0"
  shows "fold infer_sentence is a = a"
  using assms by (induction "is") (simp_all add: infer_sentence_idle)

lemma subset_inference_pair:
  assumes "a \<noteq> b" and "a \<noteq> c" and "b \<noteq> c"
  shows "subset_inference [Sentence {|a, b|} 1, Sentence {|a, b, c|} 2] = [Sentence {|c|} 1]"
    and "subset_inference [Sentence {|a, b, c|} 2, Sentence {|a, b|} 1] = [Sentence {|c|} 1]"
proof -
  have diff: "{|a, b, c|} |-| {|a, b|} = {|c|}"
    using assms by auto
  have nsub: "\<not> {|a, b, c|} |\<subseteq>| {|a, b|}"
    using assms by auto
  show "subset_inference [Sentence {|a, b|} 1, Sentence {|a, b, c|} 2] = [Sentence {|c|} 1]"
    using diff nsub assms by (auto simp: subset_inference_def sentence_eq_def Sentence_def)
  show "subset_inference [Sentence {|a, b, c|} 2, Sentence {|a, b|} 1] = [Sentence {|c|} 1]"
    using diff nsub assms by (auto simp: subset_inference_def sentence_eq_def Sentence_def)
qed

text \<open>
  With the two sentences anywhere in a knowledge base in which no sentence has known mines
  or known safes, one call derives \<^verbatim>\<open>{c} = 1\<close> as a new sentence and marks nothing.
\<close>

lemma subset_inference_iff:
  "s \<in> set (subset_inference ks) \<longleftrightarrow>
     (\<exists>s1 \<in> set ks. \<exists>s2 \<in> set ks. s1 \<noteq> s2 \<and> cells s1 |\<subseteq>| cells s2 \<and>
        s = Sentence (cells s2 |-| cells s1) (count s2 - count s1) \<and> s \<notin> set ks)"
  by (auto simp: subset_inference_def list_ex_iff sentence_eq_iff)

lemma subset_inference_derives:
  assumes "a \<noteq> b" and "a \<noteq> c" and "b \<noteq> c"
    and "Sentence {|a, b|} 1 \<in> set (knowledge st)"
    and "Sentence {|a, b, c|} 2 \<in> set (knowledge st)"
    and "\<forall>s \<in> set (knowledge st). int (fcard (cells s)) \<noteq> count s \<and> count s \<noteq> 0"
  shows "Sentence {|c|} 1 \<notin> set (knowledge st)"
    and "Sentence {|c|} 1 \<in> set (knowledge (apply_inference st))"
    and "mines (apply_inference st) = mines st"
proof -
  let ?ks = "filter (\<lambda>s. fcard (cells s) > 0) (knowledge st)"
  have loop: "infer_loop st = st"
    unfolding infer_loop_def by (rule fold_infer_sentence_idle) (simp add: assms(6))
  show new: "Sentence {|c|} 1 \<notin> set (knowledge st)"
    using assms(6) by (auto simp: Sentence_def fcard_finsert_if)
  have in1: "Sentence {|a, b|} 1 \<in> set ?ks" and in2: "Sentence {|a, b, c|} 2 \<in> set ?ks"
    using assms(4,5) by (simp_all add: Sentence_def fcard_finsert_if)
  have diff: "{|a, b, c|} |-| {|a, b|} = {|c|}"
    using assms(1-3) by auto
  have "Sentence {|c|} 1 \<notin> set ?ks"
    using new by simp
  moreover have "Sentence {|a, b|} 1 \<noteq> Sentence {|a, b, c|} 2"
    by (simp add: Sentence_def)
  moreover have "Sentence {|c|} 1 =
      Sentence (cells (Sentence {|a, b, c|} 2) |-| cells (Sentence {|a, b|} 1))
               (count (Sentence {|a, b, c|} 2) - count (Sentence {|a, b|} 1))"
    using diff by (simp add: Sentence_def)
  moreover have "cells (Sentence {|a, b|} 1) |\<subseteq>| cells (Sentence {|a, b, c|} 2)"
    by (auto simp: Sentence_def)
  ultimately have "Sentence {|c|} 1 \<in> set (subset_inference ?ks)"
    unfolding subset_inference_iff using in1 in2 by blast
  then show "Sentence {|c|} 1 \<in> set (knowledge (apply_inference st))"
    by (simp add: knowledge_apply_inference loop)
  show "mines (apply_inference st) = mines st"
    by (simp add: loop)
qed

text \<open>
  Claim C1, as the code has it. With \<^verbatim>\<open>knowledge\<close> holding \<^verbatim>\<open>{a, b} = 1\<close> and
  \<^verbatim>\<open>{a, b, c} = 2\<close> (in either order, \<^verbatim>\<open>a\<close>, \<^verbatim>\<open>b\<close>, \<^verbatim>\<open>c\<close> distinct, \<^verbatim>\<open>c\<close> not a known mine),
  one call of \<^verbatim>\<open>apply_inference\<close> appends the sentence \<^verbatim>\<open>{c} = 1\<close> and leaves \<^verbatim>\<open>c\<close> out of
  \<^verbatim>\<open>mines\<close>: the call makes one pass, and the marking loop comes before the pair loop. The
  next call puts \<^verbatim>\<open>c\<close> into \<^verbatim>\<open>mines\<close>.
\<close>

theorem subset_inference_single_pass:
  assumes "a \<noteq> b" and "a \<noteq> c" and "b \<noteq> c"
    and "knowledge st = [Sentence {|a, b|} 1, Sentence {|a, b, c|} 2] \<or>
         knowledge st = [Sentence {|a, b, c|} 2, Sentence {|a, b|} 1]"
    and "c |\<notin>| mines st"
  shows "knowledge (apply_inference st) = knowledge st @ [Sentence {|c|} 1] \<and>
         c |\<notin>| mines (apply_inference st) \<and>
         c |\<in>| mines (apply_inference (apply_inference st))"
proof -
  let ?ks = "knowledge st"
  have card2: "fcard {|a, b|} = 2" and card3: "fcard {|a, b, c|} = 3"
    using assms(1-3) by (simp_all add: fcard_finsert_if)
  have len: "length ?ks = 2"
    using assms(4) by auto
  have idle: "int (fcard (cells s)) \<noteq> count s \<and> count s \<noteq> 0" if "s \<in> set ?ks" for s
    using that assms(4) card2 card3 by (auto simp: Sentence_def)
  have loop1: "infer_loop st = st"
    unfolding infer_loop_def by (rule fold_infer_sentence_idle) (simp add: idle)
  have keep: "filter (\<lambda>s. fcard (cells s) > 0) ?ks = ?ks"
    using assms(4) card2 card3 by (auto simp: Sentence_def)
  have derived: "subset_inference ?ks = [Sentence {|c|} 1]"
    using assms(4) subset_inference_pair [OF assms(1-3)] by auto
  have k1: "knowledge (apply_inference st) = ?ks @ [Sentence {|c|} 1]"
    by (simp add: knowledge_apply_inference loop1 keep derived)
  have m1: "mines (apply_inference st) = mines st"
    by (simp add: loop1)
  let ?st1 = "apply_inference st"
  have "\<forall>i \<in> set [0 ..< 2]. int (fcard (cells (knowledge ?st1 ! i))) \<noteq> count (knowledge ?st1 ! i) \<and>
                        count (knowledge ?st1 ! i) \<noteq> 0"
    using idle len by (simp add: k1 nth_append)
  then have "fold infer_sentence [0 ..< 2] ?st1 = ?st1"
    by (rule fold_infer_sentence_idle)
  moreover have "[0 ..< length (knowledge ?st1)] = [0 ..< 2] @ [2]"
    using len by (simp add: k1 numeral_3_eq_3 numeral_2_eq_2)
  ultimately have "infer_loop ?st1 = infer_sentence 2 ?st1"
    by (simp add: infer_loop_def)
  then have "mines (apply_inference ?st1) = mines ?st1 |\<union>| fst (known_mines (knowledge ?st1 ! 2))"
    by simp
  also have "fst (known_mines (knowledge ?st1 ! 2)) = {|c|}"
    using len by (simp add: k1 nth_append known_mines_def Sentence_def fcard_finsert_if)
  finally have "c |\<in>| mines (apply_inference ?st1)"
    by simp
  with k1 m1 assms(5) show ?thesis
    by simp
qed

theorem subset_inference_single_pass_witness:
  "knowledge (apply_inference ((MinesweeperAI 3 3)
      \<lparr>knowledge := [Sentence {|(0, 0), (0, 1)|} 1, Sentence {|(0, 0), (0, 1), (0, 2)|} 2]\<rparr>)) =
     [Sentence {|(0, 0), (0, 1)|} 1, Sentence {|(0, 0), (0, 1), (0, 2)|} 2, Sentence {|(0, 2)|} 1] \<and>
   (0, 2) |\<notin>| mines (apply_inference ((MinesweeperAI 3 3)
      \<lparr>knowledge := [Sentence {|(0, 0), (0, 1)|} 1, Sentence {|(0, 0), (0, 1), (0, 2)|} 2]\<rparr>)) \<and>
   (0, 2) |\<in>| mines (apply_inference (apply_inference ((MinesweeperAI 3 3)
      \<lparr>knowledge := [Sentence {|(0, 0), (0, 1)|} 1, Sentence {|(0, 0), (0, 1), (0, 2)|} 2]\<rparr>)))"
  using subset_inference_single_pass [of "(0, 0)" "(0, 1)" "(0, 2)" "(MinesweeperAI 3 3)
      \<lparr>knowledge := [Sentence {|(0, 0), (0, 1)|} 1, Sentence {|(0, 0), (0, 1), (0, 2)|} 2]\<rparr>"]
  by (simp add: MinesweeperAI_def)

text \<open>
  Claim C1 as stated fails: after one call of \<^verbatim>\<open>apply_inference\<close> on the sentences
  \<^verbatim>\<open>{(0, 0), (0, 1)} = 1\<close> and \<^verbatim>\<open>{(0, 0), (0, 1), (0, 2)} = 2\<close> the cell \<^verbatim>\<open>(0, 2)\<close> is not in
  \<^verbatim>\<open>mines\<close>.
\<close>

theorem subset_inference_mine_not_marked:
  "in_bounds (MinesweeperAI 3 3) (0, 0) \<and> in_bounds (MinesweeperAI 3 3) (0, 1) \<and>
   in_bounds (MinesweeperAI 3 3) (0, 2) \<and>
   Sentence {|(0, 2)|} 1 \<in> set (knowledge (apply_inference ((MinesweeperAI 3 3)
      \<lparr>knowledge := [Sentence {|(0, 0), (0, 1)|} 1, Sentence {|(0, 0), (0, 1), (0, 2)|} 2]\<rparr>))) \<and>
   (0, 2) |\<notin>| mines (apply_inference ((MinesweeperAI 3 3)
      \<lparr>knowledge := [Sentence {|(0, 0), (0, 1)|} 1, Sentence {|(0, 0), (0, 1), (0, 2)|} 2]\<rparr>))"
  by code_simp

text \<open>
  Claim C2 on the code. On a 3 by 3 board whose only mine is the centre, the four corners
  are observed (each sees one mine), then \<^verbatim>\<open>(0, 1)\<close>. In the fifth call the pair loop derives
  \<^verbatim>\<open>{(2, 1)} = 0\<close> twice, from the pairs of the two left corners and of the two right corners;
  neither copy is in \<^verbatim>\<open>self.knowledge\<close> when it is tested, both go to \<^verbatim>\<open>new_knowledge\<close>, and
  the knowledge base ends with two equal sentences added by the same run.
\<close>

theorem duplicate_sentences_added:
  "knowledge (observe_all (MinesweeperAI 3 3)
      [((0, 0), 1), ((2, 0), 1), ((2, 2), 1), ((0, 2), 1)]) =
     [Sentence {|(0, 1), (1, 0), (1, 1)|} 1, Sentence {|(1, 0), (1, 1), (2, 1)|} 1,
      Sentence {|(1, 1), (1, 2), (2, 1)|} 1, Sentence {|(0, 1), (1, 1), (1, 2)|} 1] \<and>
   knowledge (observe_all (MinesweeperAI 3 3)
      [((0, 0), 1), ((2, 0), 1), ((2, 2), 1), ((0, 2), 1), ((0, 1), 1)]) =
     [Sentence {|(1, 0), (1, 1)|} 1, Sentence {|(1, 0), (1, 1), (2, 1)|} 1,
      Sentence {|(1, 1), (1, 2), (2, 1)|} 1, Sentence {|(1, 1), (1, 2)|} 1,
      Sentence {|(1, 0), (1, 1), (1, 2)|} 1,
      Sentence {|(2, 1)|} 0, Sentence {|(1, 2)|} 0, Sentence {|(2, 1)|} 0, Sentence {|(1, 0)|} 0]"
  by code_simp

section \<open>Observing a cell outside the grid\<close>

lemma apply_inference_safes_mono: "safes a |\<subseteq>| safes (apply_inference a)"
  by (simp add: infer_loop_def fold_infer_sentence_mono)

text \<open>
  Claim C5, as the code has it. A call of \<^verbatim>\<open>add_knowledge\<close> with a cell outside the grid
  returns normally, and the cell is in \<^verbatim>\<open>moves_made\<close> and in \<^verbatim>\<open>safes\<close> afterwards.
\<close>

theorem observe_out_of_bounds:
  assumes "\<not> in_bounds a c"
  shows "observe a c n = Inr (add_knowledge a c n) \<and>
         c |\<in>| moves_made (add_knowledge a c n) \<and> c |\<in>| safes (add_knowledge a c n)"
proof -
  let ?a2 = "mark_safe (a\<lparr>moves_made := finsert c (moves_made a)\<rparr>) c"
  let ?a3 = "?a2\<lparr>knowledge := knowledge ?a2 @ [Sentence (neighbors_of ?a2 c) n]\<rparr>"
  have "c |\<in>| safes ?a3"
    by simp
  then have "c |\<in>| safes (apply_inference ?a3)"
    using apply_inference_safes_mono [of ?a3] by blast
  then show ?thesis
    by (simp add: observe_def add_knowledge_def Let_def)
qed

theorem observe_out_of_bounds_witness:
  "\<not> in_bounds (MinesweeperAI 2 2) (5, 5) \<and>
   observe (MinesweeperAI 2 2) (5, 5) 1 = Inr (add_knowledge (MinesweeperAI 2 2) (5, 5) 1) \<and>
   (5, 5) |\<in>| moves_made (add_knowledge (MinesweeperAI 2 2) (5, 5) 1) \<and>
   (5, 5) |\<in>| safes (add_knowledge (MinesweeperAI 2 2) (5, 5) 1)"
proof -
  have h: "\<not> in_bounds (MinesweeperAI 2 2) (5, 5)"
    by (simp add: in_bounds_def MinesweeperAI_def)
  show ?thesis
    using h observe_out_of_bounds [OF h, of 1] by simp
qed

text \<open>
  Claim C5 as stated fails: on a 2 by 2 grid \<^verbatim>\<open>add_knowledge((-1, 0), 0)\<close> raises nothing; it
  records the cell as a move and as safe, and marks the grid cells \<^verbatim>\<open>(0, 0)\<close> and \<^verbatim>\<open>(0, 1)\<close>
  safe.
\<close>

theorem observe_out_of_bounds_no_error:
  "\<not> in_bounds (MinesweeperAI 2 2) (- 1, 0) \<and>
   observe (MinesweeperAI 2 2) (- 1, 0) 0 =
     Inr \<lparr>height = 2, width = 2, moves_made = {|(- 1, 0)|}, mines = {||},
          safes = {|(- 1, 0), (0, 0), (0, 1)|}, knowledge = []\<rparr>"
  by code_simp

section \<open>Choosing a move\<close>

lemma safe_move_loop_None:
  "safe_move_loop xs made = None \<longleftrightarrow> fset_of_list xs |-| made = {||}"
  by (induction xs) auto

lemma safe_move_loop_Some:
  "safe_move_loop xs made = Some c \<Longrightarrow> c |\<in>| fset_of_list xs |-| made"
  by (induction xs) (auto split: if_splits)

text \<open>
  Whatever the order in which the loop visits \<^verbatim>\<open>safes\<close>, it returns \<^verbatim>\<open>None\<close> exactly when
  \<^verbatim>\<open>safes - moves_made\<close> is empty, and otherwise a cell of that difference.
\<close>

lemma safe_move_loop_any_order:
  assumes "iterates xs (safes a)"
  shows "(safe_move_loop xs (moves_made a) = None \<longleftrightarrow> safes a |-| moves_made a = {||}) \<and>
         (\<forall>c. safe_move_loop xs (moves_made a) = Some c \<longrightarrow> c |\<in>| safes a |-| moves_made a)"
  using assms safe_move_loop_None [of xs "moves_made a"] safe_move_loop_Some [of xs "moves_made a"]
  by (simp add: iterates_def)

text \<open>
  Claim C9. When \<^verbatim>\<open>safes - moves_made\<close> is not empty, \<^verbatim>\<open>make_safe_move()\<close> returns a cell of
  \<^verbatim>\<open>safes\<close> that is not in \<^verbatim>\<open>moves_made\<close>; it returns \<^verbatim>\<open>None\<close> exactly when the difference is
  empty.
\<close>

theorem make_safe_move_spec:
  "(safes a |-| moves_made a \<noteq> {||} \<longrightarrow>
      (\<exists>c. fst (make_safe_move a) = Some c \<and> c |\<in>| safes a \<and> c |\<notin>| moves_made a)) \<and>
   (fst (make_safe_move a) = None \<longleftrightarrow> safes a |-| moves_made a = {||})"
proof -
  have none: "fst (make_safe_move a) = None \<longleftrightarrow> safes a |-| moves_made a = {||}"
    using safe_move_loop_None [of "set_iter (safes a)" "moves_made a"]
    by (simp add: make_safe_move_def)
  have "c |\<in>| safes a \<and> c |\<notin>| moves_made a" if "fst (make_safe_move a) = Some c" for c
    using that safe_move_loop_Some [of "set_iter (safes a)" "moves_made a" c]
    by (simp add: make_safe_move_def)
  with none show ?thesis
    by (cases "fst (make_safe_move a)") auto
qed

theorem make_safe_move_spec_witness:
  "safes ((MinesweeperAI 8 8)\<lparr>safes := {|(2, 2), (3, 3), (4, 4)|}, moves_made := {|(2, 2)|}\<rparr>) |-|
     moves_made ((MinesweeperAI 8 8)\<lparr>safes := {|(2, 2), (3, 3), (4, 4)|}, moves_made := {|(2, 2)|}\<rparr>)
     \<noteq> {||} \<and>
   fst (make_safe_move
     ((MinesweeperAI 8 8)\<lparr>safes := {|(2, 2), (3, 3), (4, 4)|}, moves_made := {|(2, 2)|}\<rparr>)) \<noteq> None \<and>
   safes (MinesweeperAI 8 8) |-| moves_made (MinesweeperAI 8 8) = {||} \<and>
   fst (make_safe_move (MinesweeperAI 8 8)) = None"
  using make_safe_move_spec
          [of "(MinesweeperAI 8 8)\<lparr>safes := {|(2, 2), (3, 3), (4, 4)|}, moves_made := {|(2, 2)|}\<rparr>"]
        make_safe_move_spec [of "MinesweeperAI 8 8"]
  by (auto simp: MinesweeperAI_def)

text \<open>
  Claim C10. \<^verbatim>\<open>make_safe_move()\<close> and \<^verbatim>\<open>make_random_move()\<close> leave the agent as it is: all of
  \<^verbatim>\<open>moves_made\<close>, \<^verbatim>\<open>safes\<close>, \<^verbatim>\<open>mines\<close> and \<^verbatim>\<open>knowledge\<close> are unchanged, so the returned move
  is not recorded.
\<close>

theorem moves_are_queries:
  "snd (make_safe_move a) = a \<and> snd (make_random_move r a) = a"
  by (simp add: make_safe_move_def make_random_move_def Let_def)

theorem moves_are_queries_witness:
  "fst (make_safe_move
     ((MinesweeperAI 8 8)\<lparr>safes := {|(2, 2), (3, 3), (4, 4)|}, moves_made := {|(2, 2)|}\<rparr>))
     \<in> {Some (3, 3), Some (4, 4)} \<and>
   moves_made (snd (make_safe_move
     ((MinesweeperAI 8 8)\<lparr>safes := {|(2, 2), (3, 3), (4, 4)|}, moves_made := {|(2, 2)|}\<rparr>))) =
     {|(2, 2)|} \<and>
   fst (make_random_move 5
     ((MinesweeperAI 2 2)\<lparr>mines := {|(1, 1)|}, moves_made := {|(0, 0)|}\<rparr>))
     \<in> {Some (0, 1), Some (1, 0)} \<and>
   moves_made (snd (make_random_move 5
     ((MinesweeperAI 2 2)\<lparr>mines := {|(1, 1)|}, moves_made := {|(0, 0)|}\<rparr>))) = {|(0, 0)|}"
proof -
  let ?a = "(MinesweeperAI 8 8)\<lparr>safes := {|(2, 2), (3, 3), (4, 4)|}, moves_made := {|(2, 2)|}\<rparr>"
  let ?b = "(MinesweeperAI 2 2)\<lparr>mines := {|(1, 1)|}, moves_made := {|(0, 0)|}\<rparr>"
  have "(3, 3) |\<in>| safes ?a |-| moves_made ?a"
    by simp
  then have "safe_move_loop (set_iter (safes ?a)) (moves_made ?a) \<noteq> None"
    unfolding safe_move_loop_None by auto
  then obtain c where c: "safe_move_loop (set_iter (safes ?a)) (moves_made ?a) = Some c"
    by auto
  then have "c |\<in>| safes ?a |-| moves_made ?a"
    using safe_move_loop_Some [of "set_iter (safes ?a)" "moves_made ?a" c] by simp
  then have "c = (3, 3) \<or> c = (4, 4)"
    by auto
  with c have safe: "fst (make_safe_move ?a) \<in> {Some (3, 3), Some (4, 4)}"
    by (auto simp: make_safe_move_def)
  have random: "fst (make_random_move 5 ?b) \<in> {Some (0, 1), Some (1, 0)}"
    by code_simp
  show ?thesis
    using safe random moves_are_queries [of ?a 5] moves_are_queries [of ?b 5]
    by (simp add: MinesweeperAI_def)
qed

end
